theory Spec2Isabelle
  imports Complex_Main "HOL-Library.Word"
begin

section \<open>The chat client of \<^verbatim>\<open>src/App.vue\<close>\<close>

text \<open>
  The component keeps three reactive references (lines 15--19) and one asynchronous
  procedure, \<^verbatim>\<open>sendMessage\<close> (lines 24--85), which reads the typed text, appends
  the user's entry to the transcript, issues one server-streaming call and appends one
  entry per chunk that arrives. This theory embeds that procedure twice, each time with
  everything the environment contributes (the stream's behaviour, the clock, the random
  numbers) taken as an explicit argument: \<open>sendMessage\<close> is the invocation that nothing
  interrupts, a function from the state before it to the state (and completion) after it;
  \<open>sendMessage_async\<close> adds what other handlers do while the invocation waits for the
  stream, the request it sends, and the stream that never stops.
\<close>

subsection \<open>JavaScript strings and \<^verbatim>\<open>String.prototype.trim\<close>\<close>

text \<open>
  A JavaScript string is a sequence of UTF-16 code units. \<^verbatim>\<open>trim\<close> removes, at both
  ends, the code units of ECMAScript's WhiteSpace and LineTerminator productions: TAB, VT,
  FF, ZWNBSP, the Unicode space separators (category Zs), LF, CR, LS and PS. All of them
  are single code units. The empty string is the only falsy string. \<open>utf16\<close> writes an
  ASCII literal as code units.
\<close>

type_synonym code_unit = "16 word"

type_synonym jsstring = "code_unit list"

definition utf16 :: "string \<Rightarrow> jsstring" where
  "utf16 cs = map of_char cs"

definition isWhiteSpace :: "code_unit \<Rightarrow> bool" where
  "isWhiteSpace c \<longleftrightarrow>
     c = 0x0009 \<or> c = 0x000A \<or> c = 0x000B \<or> c = 0x000C \<or> c = 0x000D \<or>
     c = 0x0020 \<or> c = 0x00A0 \<or> c = 0x1680 \<or> (0x2000 \<le> c \<and> c \<le> 0x200A) \<or>
     c = 0x2028 \<or> c = 0x2029 \<or> c = 0x202F \<or> c = 0x205F \<or> c = 0x3000 \<or>
     c = 0xFEFF"

definition trim :: "jsstring \<Rightarrow> jsstring" where
  "trim s = rev (dropWhile isWhiteSpace (rev (dropWhile isWhiteSpace s)))"

subsection \<open>Data model (lines 7--19)\<close>

datatype sender = User | Api

datatype status = Sending | Sent | Failed | Streaming

text \<open>
  \<^verbatim>\<open>id\<close> is a JavaScript number. The program computes it as \<^verbatim>\<open>Date.now()\<close>, an
  integer, or as \<^verbatim>\<open>Date.now() + Math.random()\<close>, a double. The model keeps the exact
  rational sum. Rounding to a double is a function of the exact sum, so two entries whose
  ids are equal here have equal ids in the program as well (the converse need not hold).
  The field is named \<open>id'\<close> because \<open>id\<close> is HOL's identity function. \<^verbatim>\<open>status\<close> is
  optional in the interface, hence the option.
\<close>

record ChatMessage =
  id' :: rat
  content :: jsstring
  sender :: sender
  status :: "status option"

text \<open>
  The reactive references \<^verbatim>\<open>messages\<close>, \<^verbatim>\<open>newMessageContent\<close> and \<^verbatim>\<open>isLoading\<close>.
  The fourth reference, \<^verbatim>\<open>messagesContainer\<close>, is the DOM element that
  \<^verbatim>\<open>scrollToLatestMessage\<close> scrolls; scrolling reads and writes none of the other three
  and does not throw, so it is left out.
\<close>

record state =
  messages :: "ChatMessage list"
  newMessageContent :: jsstring
  isLoading :: bool

definition init :: state where
  "init = \<lparr>messages = [], newMessageContent = [], isLoading = False\<rparr>"

subsection \<open>The environment of one invocation\<close>

text \<open>
  A chunk that the stream yields, together with what \<^verbatim>\<open>Date.now()\<close> and
  \<^verbatim>\<open>Math.random()\<close> return when line 53 builds the id of its entry.
\<close>

record arrival =
  response_content :: jsstring
  date_now :: int
  math_random :: rat

text \<open>
  How the stream stops: the iterator reports that it is done, or the call or the iterator
  throws (when the call is issued, between two chunks, or on close).
\<close>

datatype ending = EndOfStream | StreamError

text \<open>
  \<open>apiClient_sendMessage\<close> is the remote service as the procedure sees it: the request's
  \<^verbatim>\<open>content\<close> determines the chunks that arrive and how the stream stops. A stream is
  a finite list of chunks: a stream that never stops keeps the invocation suspended for
  ever and is not represented here (\<open>stream\<close> below has it). \<open>user_now\<close> is \<^verbatim>\<open>Date.now()\<close> at line 35;
  \<open>catch_now\<close> and \<open>catch_random\<close> are \<^verbatim>\<open>Date.now()\<close> and \<^verbatim>\<open>Math.random()\<close> at
  line 75, read only when the handler runs.
\<close>

record env =
  user_now :: int
  apiClient_sendMessage :: "jsstring \<Rightarrow> arrival list \<times> ending"
  catch_now :: int
  catch_random :: rat

subsection \<open>\<^verbatim>\<open>sendMessage\<close> (lines 24--85)\<close>

definition push :: "ChatMessage \<Rightarrow> state \<Rightarrow> state" where
  "push m st = st\<lparr>messages := messages st @ [m]\<rparr>"

text \<open>The object literals of lines 34--39, 52--57 and 74--79.\<close>

definition user_message :: "env \<Rightarrow> jsstring \<Rightarrow> ChatMessage" where
  "user_message e c =
     \<lparr>id' = of_int (user_now e), content = c, sender = User, status = Some Sent\<rparr>"

definition chunk_message :: "arrival \<Rightarrow> ChatMessage" where
  "chunk_message a =
     \<lparr>id' = of_int (date_now a) + math_random a, content = response_content a,
      sender = Api, status = Some Streaming\<rparr>"

definition error_message :: "env \<Rightarrow> ChatMessage" where
  "error_message e =
     \<lparr>id' = of_int (catch_now e) + catch_random e,
      content = utf16 ''Error receiving message.'',
      sender = Api, status = Some Failed\<rparr>"

text \<open>Lines 30--42: what an accepted invocation does before it issues the call.\<close>

definition accept :: "env \<Rightarrow> jsstring \<Rightarrow> state \<Rightarrow> state" where
  "accept e c s = push (user_message e c) (s\<lparr>isLoading := True, newMessageContent := []\<rparr>)"

text \<open>Lines 50--61: the loop over the chunks that arrive.\<close>

fun for_await :: "arrival list \<Rightarrow> state \<Rightarrow> state" where
  "for_await [] st = st"
| "for_await (a # rest) st = for_await rest (push (chunk_message a) st)"

text \<open>Lines 65--70: the last entry, when there is one and the service sent it, becomes \<^verbatim>\<open>sent\<close>.\<close>

definition mark_last_sent :: "state \<Rightarrow> state" where
  "mark_last_sent st =
     (let ms = messages st in
      if length ms > 0 \<and> sender (ms ! (length ms - 1)) = Api
      then st\<lparr>messages := ms[length ms - 1 := (ms ! (length ms - 1))\<lparr>status := Some Sent\<rparr>]\<rparr>
      else st)"

text \<open>
  A block either completes normally (\<open>Inr\<close>) or throws (\<open>Inl\<close>); both carry the state,
  since what was pushed before a throw stays pushed. The \<^verbatim>\<open>try\<close> block (lines 45--70)
  throws where the stream does, and then skips lines 65--70.
\<close>

definition try_block :: "env \<Rightarrow> jsstring \<Rightarrow> state \<Rightarrow> state + state" where
  "try_block e c st =
     (let responseStream = apiClient_sendMessage e c;
          st' = for_await (fst responseStream) st
      in case snd responseStream of
           StreamError \<Rightarrow> Inl st'
         | EndOfStream \<Rightarrow> Inr (mark_last_sent st'))"

text \<open>Lines 72--81: the handler. It logs the error and pushes a fixed entry.\<close>

definition catch_block :: "env \<Rightarrow> state \<Rightarrow> state + state" where
  "catch_block e st = Inr (push (error_message e) st)"

text \<open>Line 83.\<close>

definition finally_block :: "state \<Rightarrow> state" where
  "finally_block st = st\<lparr>isLoading := False\<rparr>"

text \<open>
  The whole procedure. \<open>Inr s'\<close>: the promise it returns is fulfilled, the references
  holding \<open>s'\<close>. \<open>Inl s'\<close>: the promise is rejected.
\<close>

definition sendMessage :: "env \<Rightarrow> state \<Rightarrow> state + state" where
  "sendMessage e s =
     (let content = trim (newMessageContent s) in
      if content = [] \<or> isLoading s then Inr s
      else
        (case (case try_block e content (accept e content s) of
                 Inl st \<Rightarrow> catch_block e st
               | Inr st \<Rightarrow> Inr st) of
           Inl st \<Rightarrow> Inl (finally_block st)
         | Inr st \<Rightarrow> Inr (finally_block st)))"

text \<open>The guard of line 26 lets the invocation through.\<close>

definition accepted :: "state \<Rightarrow> bool" where
  "accepted s \<longleftrightarrow> trim (newMessageContent s) \<noteq> [] \<and> \<not> isLoading s"

subsection \<open>Sessions\<close>

text \<open>
  Between two invocations the user edits the input field, which \<^verbatim>\<open>v-model\<close> (line 117)
  copies into \<^verbatim>\<open>newMessageContent\<close>. A session is a sequence of such edits and of
  invocations, each run to completion before the next action, from the initial state of
  lines 15--19. What happens while an invocation is suspended is the subject of the next
  subsection.
\<close>

datatype action = Input jsstring | Invoke env

definition state_after :: "state + state \<Rightarrow> state" where
  "state_after r = (case r of Inl st \<Rightarrow> st | Inr st \<Rightarrow> st)"

fun step :: "state \<Rightarrow> action \<Rightarrow> state" where
  "step s (Input text) = s\<lparr>newMessageContent := text\<rparr>"
| "step s (Invoke e) = state_after (sendMessage e s)"

definition run :: "action list \<Rightarrow> state \<Rightarrow> state" where
  "run acts s = foldl step s acts"

subsection \<open>The invocation with its suspensions\<close>

text \<open>
  \<^verbatim>\<open>sendMessage\<close> is asynchronous: at line 50 it waits for the stream, once for every
  chunk and once more for the end, and while it waits other handlers run. In this
  component they can do two things: write \<^verbatim>\<open>newMessageContent\<close> (line 117) and invoke
  \<^verbatim>\<open>sendMessage\<close> again (lines 118 and 123); these are the actions of a session. A
  stream, as the loop meets it, says for each wait what is done during it and how it ends:
  with a chunk, with the end of the stream or a throw, or never. A stream that yields
  chunks for ever is not represented; like \<open>Never\<close> it keeps the invocation from
  completing.
\<close>

datatype stream =
    Chunk "action list" arrival stream
  | Close "action list" ending
  | Never

text \<open>
  Lines 50--70 with their waits. \<open>None\<close>: the loop never gets past a wait. An invocation
  made during a wait runs in a state whose busy flag is set, so it returns at line 27
  without waiting itself, and \<open>step\<close> runs it exactly.
\<close>

fun consume :: "stream \<Rightarrow> state \<Rightarrow> (state + state) option" where
  "consume (Chunk during a rest) st = consume rest (push (chunk_message a) (run during st))"
| "consume (Close during stop) st =
     (let st' = run during st
      in case stop of
           StreamError \<Rightarrow> Some (Inl st')
         | EndOfStream \<Rightarrow> Some (Inr (mark_last_sent st')))"
| "consume Never st = None"

text \<open>
  Line 47: the call, with the request it passes. The first component lists the requests
  sent to the service.
\<close>

definition call :: "(jsstring \<Rightarrow> stream) \<Rightarrow> jsstring \<Rightarrow> jsstring list \<times> stream" where
  "call service request = ([request], service request)"

text \<open>Lines 45--70.\<close>

definition try_block_async ::
  "(jsstring \<Rightarrow> stream) \<Rightarrow> jsstring \<Rightarrow> state \<Rightarrow> jsstring list \<times> (state + state) option" where
  "try_block_async service c st =
     (let (requests, responseStream) = call service c
      in (requests, consume responseStream st))"

text \<open>
  The whole procedure: the requests it has sent, and \<open>None\<close> when the promise is never
  settled, \<open>Some (Inr s')\<close> when it is fulfilled, \<open>Some (Inl s')\<close> when it is rejected.
  The environment \<open>e\<close> is read for the clock and the random numbers only; the service
  is \<open>service\<close>.
\<close>

definition sendMessage_async ::
  "env \<Rightarrow> (jsstring \<Rightarrow> stream) \<Rightarrow> state \<Rightarrow> jsstring list \<times> (state + state) option" where
  "sendMessage_async e service s =
     (let content = trim (newMessageContent s) in
      if content = [] \<or> isLoading s then ([], Some (Inr s))
      else
        (let (requests, tried) = try_block_async service content (accept e content s)
         in (requests,
             case tried of
               None \<Rightarrow> None
             | Some r \<Rightarrow>
                 (case (case r of Inl st \<Rightarrow> catch_block e st | Inr st \<Rightarrow> Inr st) of
                    Inl st \<Rightarrow> Some (Inl (finally_block st))
                  | Inr st \<Rightarrow> Some (Inr (finally_block st))))))"

text \<open>
  What a stream holds: its chunks, the actions done during its waits, in order, and how it
  ends. \<open>written acts b\<close> is what a buffer holding \<open>b\<close> holds after the writes among
  \<open>acts\<close>. \<open>quiet\<close> is the stream of a response during whose waits nothing is done.
\<close>

fun written :: "action list \<Rightarrow> jsstring \<Rightarrow> jsstring" where
  "written [] buffer = buffer"
| "written (Input text # acts) buffer = written acts text"
| "written (Invoke e # acts) buffer = written acts buffer"

fun chunks_of :: "stream \<Rightarrow> arrival list" where
  "chunks_of (Chunk during a rest) = a # chunks_of rest"
| "chunks_of (Close during stop) = []"
| "chunks_of Never = []"

fun actions_of :: "stream \<Rightarrow> action list" where
  "actions_of (Chunk during a rest) = during @ actions_of rest"
| "actions_of (Close during stop) = during"
| "actions_of Never = []"

fun ending_of :: "stream \<Rightarrow> ending option" where
  "ending_of (Chunk during a rest) = ending_of rest"
| "ending_of (Close during stop) = Some stop"
| "ending_of Never = None"

fun quiet :: "arrival list \<times> ending \<Rightarrow> stream" where
  "quiet ([], stop) = Close [] stop"
| "quiet (a # as, stop) = Chunk [] a (quiet (as, stop))"

subsection \<open>Sample inputs\<close>

text \<open>
  An idle state in which the user has typed \<^verbatim>\<open>"  hi  "\<close>, three chunks that arrive
  within two milliseconds, and an environment whose service answers every request with
  the given response.
\<close>

definition typed_hi :: state where
  "typed_hi = \<lparr>messages = [], newMessageContent = utf16 ''  hi  '', isLoading = False\<rparr>"

definition abc :: "arrival list" where
  "abc =
     [\<lparr>response_content = utf16 ''a'', date_now = 1700000000001, math_random = 1 / 4\<rparr>,
      \<lparr>response_content = utf16 ''b'', date_now = 1700000000001, math_random = 5 / 8\<rparr>,
      \<lparr>response_content = utf16 ''c'', date_now = 1700000000002, math_random = 1 / 8\<rparr>]"

definition answering :: "arrival list \<times> ending \<Rightarrow> env" where
  "answering response =
     \<lparr>user_now = 1700000000000, apiClient_sendMessage = (\<lambda>request. response),
      catch_now = 1700000000003, catch_random = 3 / 4\<rparr>"

text \<open>An idle state whose input holds a space, a tab, an ideographic space and a line feed.\<close>

definition typed_blank :: state where
  "typed_blank =
     \<lparr>messages = [], newMessageContent = [0x20, 0x09, 0x3000, 0x0A], isLoading = False\<rparr>"

text \<open>
  The state while the invocation made in \<open>typed_hi\<close> is suspended at line 50, waiting
  for the stream.
\<close>

definition in_flight :: state where
  "in_flight = accept (answering (abc, EndOfStream)) (utf16 ''hi'') typed_hi"

text \<open>
  An environment in which the service cannot be reached: the call throws at once, and the
  handler runs while the clock still shows the millisecond in which line 35 read it.
\<close>

definition same_ms :: "rat \<Rightarrow> env" where
  "same_ms r =
     \<lparr>user_now = 1700000000000, apiClient_sendMessage = (\<lambda>request. ([], StreamError)),
      catch_now = 1700000000000, catch_random = r\<rparr>"

text \<open>
  A service whose stream yields one chunk and ends; while the invocation waits for the
  chunk, \<^verbatim>\<open>sendMessage\<close> is invoked again and then \<^verbatim>\<open>"x"\<close> is written to the input.
\<close>

definition interrupted :: "jsstring \<Rightarrow> stream" where
  "interrupted request =
     Chunk [Invoke (answering (abc, EndOfStream)), Input (utf16 ''x'')]
       \<lparr>response_content = utf16 ''a'', date_now = 1700000000001, math_random = 1 / 4\<rparr>
       (Close [] EndOfStream)"

subsection \<open>Basic facts\<close>

lemma dropWhile_all: "(\<forall>x\<in>set (dropWhile P xs). P x) \<longleftrightarrow> (\<forall>x\<in>set xs. P x)"
proof (cases "dropWhile P xs")
  case Nil
  then have "\<forall>x\<in>set xs. P x" by simp
  then show ?thesis unfolding Nil by simp
next
  case (Cons y ys)
  then have "\<not> P y" using hd_dropWhile [of P xs] by simp
  moreover have "y \<in> set xs" using Cons set_dropWhileD [of y P xs] by simp
  ultimately show ?thesis using Cons by auto
qed

lemma trim_eq_Nil_iff: "trim s = [] \<longleftrightarrow> (\<forall>c\<in>set s. isWhiteSpace c)"
  by (simp add: trim_def dropWhile_all)

lemma trim_hi: "trim (utf16 ''  hi  '') = utf16 ''hi''"
  by (simp add: trim_def utf16_def isWhiteSpace_def)

lemma messages_push [simp]: "messages (push m st) = messages st @ [m]"
  by (simp add: push_def)

lemma isLoading_push [simp]: "isLoading (push m st) = isLoading st"
  by (simp add: push_def)

lemma newMessageContent_push [simp]: "newMessageContent (push m st) = newMessageContent st"
  by (simp add: push_def)

lemma messages_for_await:
  "messages (for_await as st) = messages st @ map chunk_message as"
  by (induction as arbitrary: st) simp_all

lemma isLoading_for_await [simp]: "isLoading (for_await as st) = isLoading st"
  by (induction as arbitrary: st) simp_all

lemma newMessageContent_for_await [simp]:
  "newMessageContent (for_await as st) = newMessageContent st"
  by (induction as arbitrary: st) simp_all

lemma messages_accept [simp]: "messages (accept e c s) = messages s @ [user_message e c]"
  by (simp add: accept_def)

lemma isLoading_accept [simp]: "isLoading (accept e c s) = True"
  by (simp add: accept_def)

lemma newMessageContent_accept [simp]: "newMessageContent (accept e c s) = []"
  by (simp add: accept_def)

lemma busy_while_suspended: "isLoading (for_await (take k fs) (accept e c s))"
  by simp

lemma messages_finally_block [simp]: "messages (finally_block st) = messages st"
  by (simp add: finally_block_def)

lemma isLoading_finally_block [simp]: "isLoading (finally_block st) = False"
  by (simp add: finally_block_def)

lemma newMessageContent_finally_block [simp]:
  "newMessageContent (finally_block st) = newMessageContent st"
  by (simp add: finally_block_def)

lemma mark_last_sent_Api:
  assumes "messages st = ms @ [m]" and "sender m = Api"
  shows "messages (mark_last_sent st) = ms @ [m\<lparr>status := Some Sent\<rparr>]"
  using assms by (simp add: mark_last_sent_def Let_def)

lemma mark_last_sent_User:
  assumes "messages st = ms @ [m]" and "sender m = User"
  shows "mark_last_sent st = st"
  using assms by (simp add: mark_last_sent_def Let_def)

lemma isLoading_mark_last_sent [simp]: "isLoading (mark_last_sent st) = isLoading st"
  by (simp add: mark_last_sent_def Let_def)

lemma newMessageContent_mark_last_sent [simp]:
  "newMessageContent (mark_last_sent st) = newMessageContent st"
  by (simp add: mark_last_sent_def Let_def)

text \<open>The three ways an invocation can go.\<close>

lemma sendMessage_rejected:
  "trim (newMessageContent s) = [] \<or> isLoading s \<Longrightarrow> sendMessage e s = Inr s"
  by (auto simp: sendMessage_def)

lemma sendMessage_EndOfStream:
  assumes "accepted s"
    and "apiClient_sendMessage e (trim (newMessageContent s)) = (fs, EndOfStream)"
  shows "sendMessage e s =
           Inr (finally_block (mark_last_sent
             (for_await fs (accept e (trim (newMessageContent s)) s))))"
  using assms by (simp add: sendMessage_def accepted_def try_block_def)

lemma sendMessage_StreamError:
  assumes "accepted s"
    and "apiClient_sendMessage e (trim (newMessageContent s)) = (fs, StreamError)"
  shows "sendMessage e s =
           Inr (finally_block (push (error_message e)
             (for_await fs (accept e (trim (newMessageContent s)) s))))"
  using assms by (simp add: sendMessage_def accepted_def try_block_def catch_block_def)

lemma trim_typed_hi: "trim (newMessageContent typed_hi) = utf16 ''hi''"
  by (simp add: typed_hi_def trim_hi)

lemma messages_typed_hi: "messages typed_hi = []"
  by (simp add: typed_hi_def)

lemma accepted_typed_hi: "accepted typed_hi"
  unfolding accepted_def trim_typed_hi by (simp add: utf16_def typed_hi_def)

text \<open>The transcript when the \<^verbatim>\<open>try\<close> block has completed normally.\<close>

lemma messages_after_loop_and_mark:
  "messages (mark_last_sent (for_await fs (accept e c s))) =
     messages s @ [user_message e c] @
     (if fs = [] then []
      else map chunk_message (butlast fs) @ [(chunk_message (last fs))\<lparr>status := Some Sent\<rparr>])"
proof (cases "fs = []")
  case True
  have "sender (user_message e c) = User" by (simp add: user_message_def)
  then have "mark_last_sent (accept e c s) = accept e c s"
    using mark_last_sent_User [of "accept e c s" "messages s" "user_message e c"] by simp
  with True show ?thesis by simp
next
  case False
  let ?loop = "for_await fs (accept e c s)"
  have "map chunk_message fs = map chunk_message (butlast fs @ [last fs])"
    using False by simp
  then have "messages ?loop =
          (messages s @ [user_message e c] @ map chunk_message (butlast fs)) @
          [chunk_message (last fs)]"
    by (simp add: messages_for_await)
  moreover have "sender (chunk_message (last fs)) = Api"
    by (simp add: chunk_message_def)
  ultimately have "messages (mark_last_sent ?loop) =
          (messages s @ [user_message e c] @ map chunk_message (butlast fs)) @
          [(chunk_message (last fs))\<lparr>status := Some Sent\<rparr>]"
    by (rule mark_last_sent_Api)
  with False show ?thesis by simp
qed

text \<open>An accepted invocation: the \<^verbatim>\<open>try\<close> block starts in the state that lines 30--42 leave.\<close>

lemma sendMessage_accepted:
  assumes "accepted s"
  shows "sendMessage e s =
     (case try_block e (trim (newMessageContent s)) (accept e (trim (newMessageContent s)) s) of
        Inl st \<Rightarrow> Inr (finally_block (push (error_message e) st))
      | Inr st \<Rightarrow> Inr (finally_block st))"
  using assms by (simp add: sendMessage_def accepted_def catch_block_def split: sum.splits)

text \<open>Rejected invocations, one after the other, change nothing.\<close>

lemma run_rejected:
  assumes "trim (newMessageContent s) = [] \<or> isLoading s"
  shows "run (map Invoke es) s = s"
  using assms by (induction es) (simp_all add: run_def sendMessage_rejected state_after_def)

text \<open>
  While the busy flag is set, the actions of other handlers change the buffer and nothing
  else.
\<close>

lemma written_append: "written (xs @ ys) b = written ys (written xs b)"
  by (induction xs b rule: written.induct) simp_all

lemma run_busy:
  "isLoading st \<Longrightarrow> run acts st = st\<lparr>newMessageContent := written acts (newMessageContent st)\<rparr>"
proof (induction acts arbitrary: st)
  case Nil
  then show ?case by (simp add: run_def)
next
  case (Cons a acts)
  show ?case
  proof (cases a)
    case (Input t)
    have "run (a # acts) st = run acts (st\<lparr>newMessageContent := t\<rparr>)"
      by (simp add: run_def Input)
    also have "\<dots> = (st\<lparr>newMessageContent := t\<rparr>)\<lparr>newMessageContent :=
        written acts (newMessageContent (st\<lparr>newMessageContent := t\<rparr>))\<rparr>"
      using Cons.prems by (intro Cons.IH) simp
    finally show ?thesis by (simp add: Input)
  next
    case (Invoke e)
    have "run (a # acts) st = run acts st"
      using Cons.prems by (simp add: run_def Invoke sendMessage_rejected state_after_def)
    then show ?thesis using Cons by (simp add: Invoke)
  qed
qed

lemma push_buffer:
  "push m (st\<lparr>newMessageContent := b\<rparr>) = (push m st)\<lparr>newMessageContent := b\<rparr>"
  by (simp add: push_def)

lemma for_await_buffer:
  "for_await as (st\<lparr>newMessageContent := b\<rparr>) = (for_await as st)\<lparr>newMessageContent := b\<rparr>"
  by (induction as arbitrary: st) (simp_all add: push_buffer)

lemma mark_last_sent_buffer:
  "mark_last_sent (st\<lparr>newMessageContent := b\<rparr>) = (mark_last_sent st)\<lparr>newMessageContent := b\<rparr>"
  by (simp add: mark_last_sent_def Let_def)

text \<open>
  The loop with its waits, from a busy state: the transcript and the flag are those of the
  loop without waits; the buffer holds what was written last.
\<close>

lemma consume_busy:
  assumes "isLoading st"
  shows "consume str st =
     (case ending_of str of
        None \<Rightarrow> None
      | Some StreamError \<Rightarrow>
          Some (Inl ((for_await (chunks_of str) st)
                      \<lparr>newMessageContent := written (actions_of str) (newMessageContent st)\<rparr>))
      | Some EndOfStream \<Rightarrow>
          Some (Inr ((mark_last_sent (for_await (chunks_of str) st))
                      \<lparr>newMessageContent := written (actions_of str) (newMessageContent st)\<rparr>)))"
  using assms
proof (induction str arbitrary: st)
  case (Chunk during a rest)
  let ?st = "push (chunk_message a) (run during st)"
  have busy: "isLoading ?st" using Chunk.prems by (simp add: run_busy)
  have eq: "?st = (push (chunk_message a) st)\<lparr>newMessageContent := written during (newMessageContent st)\<rparr>"
    using Chunk.prems by (simp add: run_busy push_buffer)
  show ?case
    unfolding consume.simps Chunk.IH [OF busy]
    by (simp add: eq for_await_buffer mark_last_sent_buffer written_append
        split: option.splits ending.splits)
next
  case (Close during stop)
  then show ?case
    by (simp add: run_busy mark_last_sent_buffer split: ending.splits)
next
  case Never
  then show ?case by simp
qed

lemma chunks_of_quiet [simp]: "chunks_of (quiet (fs, stop)) = fs"
  by (induction fs) simp_all

lemma actions_of_quiet [simp]: "actions_of (quiet (fs, stop)) = []"
  by (induction fs) simp_all

lemma ending_of_quiet [simp]: "ending_of (quiet (fs, stop)) = Some stop"
  by (induction fs) simp_all

lemma sendMessage_async_rejected:
  "\<not> accepted s \<Longrightarrow> sendMessage_async e service s = ([], Some (Inr s))"
  by (auto simp: sendMessage_async_def accepted_def)

lemma sendMessage_async_accepted:
  assumes "accepted s"
  shows "sendMessage_async e service s =
     ([trim (newMessageContent s)],
      case ending_of (service (trim (newMessageContent s))) of
        None \<Rightarrow> None
      | Some EndOfStream \<Rightarrow>
          Some (Inr ((finally_block (mark_last_sent
            (for_await (chunks_of (service (trim (newMessageContent s))))
               (accept e (trim (newMessageContent s)) s))))
            \<lparr>newMessageContent :=
               written (actions_of (service (trim (newMessageContent s)))) []\<rparr>))
      | Some StreamError \<Rightarrow>
          Some (Inr ((finally_block (push (error_message e)
            (for_await (chunks_of (service (trim (newMessageContent s))))
               (accept e (trim (newMessageContent s)) s))))
            \<lparr>newMessageContent :=
               written (actions_of (service (trim (newMessageContent s)))) []\<rparr>)))"
proof -
  let ?c = "trim (newMessageContent s)"
  have busy: "isLoading (accept e ?c s)" by simp
  show ?thesis
    using assms
    unfolding sendMessage_async_def try_block_async_def call_def Let_def
      consume_busy [OF busy] accepted_def
    by (simp add: catch_block_def finally_block_def push_def
        split: option.splits ending.splits)
qed

lemma sendMessage_async_quiet:
  "sendMessage_async e (\<lambda>request. quiet (apiClient_sendMessage e request)) s =
     (if accepted s then [trim (newMessageContent s)] else [], Some (sendMessage e s))"
proof (cases "accepted s")
  case False
  then show ?thesis
    by (simp add: sendMessage_async_rejected sendMessage_rejected accepted_def)
next
  case True
  obtain fs stop where r: "apiClient_sendMessage e (trim (newMessageContent s)) = (fs, stop)"
    by (cases "apiClient_sendMessage e (trim (newMessageContent s))")
  have clear: "st\<lparr>newMessageContent := []\<rparr> = st" if "newMessageContent st = []" for st :: state
    using that by simp
  show ?thesis
  proof (cases stop)
    case EndOfStream
    then show ?thesis
      using True r sendMessage_EndOfStream [OF True, of e fs]
      by (simp add: sendMessage_async_accepted clear)
  next
    case StreamError
    then show ?thesis
      using True r sendMessage_StreamError [OF True, of e fs]
      by (simp add: sendMessage_async_accepted clear)
  qed
qed

lemma sendMessage_async_sendMessage:
  assumes "accepted s"
    and "chunks_of (service (trim (newMessageContent s))) =
           fst (apiClient_sendMessage e (trim (newMessageContent s)))"
    and "ending_of (service (trim (newMessageContent s))) =
           Some (snd (apiClient_sendMessage e (trim (newMessageContent s))))"
  shows "\<exists>s'. sendMessage e s = Inr s'
           \<and> snd (sendMessage_async e service s) =
               Some (Inr (s'\<lparr>newMessageContent :=
                   written (actions_of (service (trim (newMessageContent s)))) []\<rparr>))"
proof -
  obtain fs stop where r: "apiClient_sendMessage e (trim (newMessageContent s)) = (fs, stop)"
    by (cases "apiClient_sendMessage e (trim (newMessageContent s))")
  show ?thesis
  proof (cases stop)
    case EndOfStream
    then show ?thesis
      using assms r sendMessage_EndOfStream [OF assms(1), of e fs]
      by (simp add: sendMessage_async_accepted)
  next
    case StreamError
    then show ?thesis
      using assms r sendMessage_StreamError [OF assms(1), of e fs]
      by (simp add: sendMessage_async_accepted)
  qed
qed

lemma in_flight_facts: "newMessageContent in_flight = []" "isLoading in_flight"
  by (simp_all add: in_flight_def)

lemma interrupted_facts:
  "ending_of (interrupted r) = Some EndOfStream"
  "chunks_of (interrupted r) =
     [\<lparr>response_content = utf16 ''a'', date_now = 1700000000001, math_random = 1 / 4\<rparr>]"
  "written (actions_of (interrupted r)) [] = utf16 ''x''"
  by (simp_all add: interrupted_def)

section \<open>The claims\<close>

subsection \<open>A stream that yields chunks and ends\<close>

text \<open>
  C1. An accepted invocation whose stream yields the chunks \<open>fs\<close>, at least one, and then
  ends: after the first \<open>k\<close> chunks the transcript is the old one, the user's entry and one
  entry per chunk received so far, in arrival order; each such entry is the service's, is
  \<^verbatim>\<open>streaming\<close> and holds exactly its chunk's text; and when the invocation is over
  only the last of them has become \<^verbatim>\<open>sent\<close>.
\<close>

theorem C1_one_entry_per_fragment:
  assumes "accepted s"
    and "apiClient_sendMessage e (trim (newMessageContent s)) = (fs, EndOfStream)"
    and "fs \<noteq> []"
  shows "(\<forall>k\<le>length fs.
            messages (for_await (take k fs) (accept e (trim (newMessageContent s)) s)) =
              messages s @ [user_message e (trim (newMessageContent s))] @
              map chunk_message (take k fs))
       \<and> (\<forall>f\<in>set fs. content (chunk_message f) = response_content f
              \<and> sender (chunk_message f) = Api \<and> status (chunk_message f) = Some Streaming)
       \<and> (\<exists>s'. sendMessage e s = Inr s'
              \<and> messages s' =
                  messages s @ [user_message e (trim (newMessageContent s))] @
                  map chunk_message (butlast fs) @
                  [(chunk_message (last fs))\<lparr>status := Some Sent\<rparr>])"
  using sendMessage_EndOfStream [OF assms(1,2)] assms(3)
  by (simp add: messages_for_await messages_after_loop_and_mark chunk_message_def)

text \<open>The chunks \<^verbatim>\<open>a\<close>, \<^verbatim>\<open>b\<close>, \<^verbatim>\<open>c\<close> after the input \<^verbatim>\<open>"  hi  "\<close>.\<close>

theorem C1_witness:
  "accepted typed_hi
   \<and> apiClient_sendMessage (answering (abc, EndOfStream)) (trim (newMessageContent typed_hi))
       = (abc, EndOfStream)
   \<and> abc \<noteq> []
   \<and> (\<exists>s'. sendMessage (answering (abc, EndOfStream)) typed_hi = Inr s'
         \<and> map content (messages s') = [utf16 ''hi'', utf16 ''a'', utf16 ''b'', utf16 ''c'']
         \<and> map sender (messages s') = [User, Api, Api, Api]
         \<and> map status (messages s') = [Some Sent, Some Streaming, Some Streaming, Some Sent])"
proof -
  have h2: "apiClient_sendMessage (answering (abc, EndOfStream))
              (trim (newMessageContent typed_hi)) = (abc, EndOfStream)"
    by (simp add: answering_def)
  have h3: "abc \<noteq> []" by (simp add: abc_def)
  show ?thesis
    using C1_one_entry_per_fragment [OF accepted_typed_hi h2 h3] accepted_typed_hi h2 h3
    by (auto simp: trim_typed_hi messages_typed_hi abc_def user_message_def chunk_message_def)
qed

subsection \<open>A stream that throws\<close>

text \<open>
  C2. An accepted invocation whose stream throws after yielding the chunks \<open>fs\<close> (none,
  some, or all of them): the promise is fulfilled all the same, and the transcript is the
  one at the moment of the throw (the old transcript, the user's entry, one entry per
  chunk) with exactly one entry appended, which is the service's, is \<^verbatim>\<open>failed\<close> and holds
  the fixed text.
\<close>

theorem C2_stream_error_absorbed:
  assumes "accepted s"
    and "apiClient_sendMessage e (trim (newMessageContent s)) = (fs, StreamError)"
  shows "messages (for_await fs (accept e (trim (newMessageContent s)) s)) =
           messages s @ [user_message e (trim (newMessageContent s))] @ map chunk_message fs
       \<and> (\<exists>s'. sendMessage e s = Inr s'
              \<and> messages s' =
                  messages (for_await fs (accept e (trim (newMessageContent s)) s)) @
                  [error_message e])
       \<and> sender (error_message e) = Api
       \<and> status (error_message e) = Some Failed
       \<and> content (error_message e) = utf16 ''Error receiving message.''"
  using sendMessage_StreamError [OF assms]
  by (simp add: messages_for_await error_message_def)

text \<open>The stream throws after the chunk \<^verbatim>\<open>a\<close>.\<close>

theorem C2_witness:
  "accepted typed_hi
   \<and> apiClient_sendMessage (answering (take 1 abc, StreamError))
         (trim (newMessageContent typed_hi)) = (take 1 abc, StreamError)
   \<and> (\<exists>s'. sendMessage (answering (take 1 abc, StreamError)) typed_hi = Inr s'
         \<and> map content (messages s') =
             [utf16 ''hi'', utf16 ''a'', utf16 ''Error receiving message.'']
         \<and> map sender (messages s') = [User, Api, Api]
         \<and> map status (messages s') = [Some Sent, Some Streaming, Some Failed])"
proof -
  have h2: "apiClient_sendMessage (answering (take 1 abc, StreamError))
              (trim (newMessageContent typed_hi)) = (take 1 abc, StreamError)"
    by (simp add: answering_def)
  show ?thesis
    using C2_stream_error_absorbed [OF accepted_typed_hi h2] accepted_typed_hi h2
    by (auto simp: trim_typed_hi messages_typed_hi abc_def user_message_def chunk_message_def
        error_message_def)
qed

subsection \<open>The busy flag and the input buffer\<close>

text \<open>
  C3 says that after every invocation the busy flag is false and the buffer is empty
  exactly when the invocation was accepted. The user types \<^verbatim>\<open>"  hi  "\<close> and sends it.
  The invocation is accepted and waits for the stream in the state \<open>in_flight\<close>. An
  invocation made now is rejected: it leaves the flag true, and it finds and leaves the
  buffer empty although it was not accepted. Then \<^verbatim>\<open>"x"\<close> is written to the input, a
  chunk arrives and the stream ends: the accepted invocation completes with the buffer
  holding \<^verbatim>\<open>"x"\<close>.
\<close>

theorem C3_counterexample:
  "in_flight =
     accept (answering (abc, EndOfStream)) (trim (newMessageContent typed_hi)) typed_hi
   \<and> sendMessage (answering (abc, EndOfStream)) in_flight = Inr in_flight
   \<and> isLoading in_flight
   \<and> newMessageContent in_flight = []
   \<and> \<not> accepted in_flight
   \<and> consume (interrupted (utf16 ''hi'')) in_flight =
       consume
         (Chunk [Input (utf16 ''x'')]
            \<lparr>response_content = utf16 ''a'', date_now = 1700000000001, math_random = 1 / 4\<rparr>
            (Close [] EndOfStream))
         (state_after (sendMessage (answering (abc, EndOfStream)) in_flight))
   \<and> accepted typed_hi
   \<and> sendMessage_async (answering (abc, EndOfStream)) interrupted typed_hi =
       ([utf16 ''hi''],
        Some (Inr \<lparr>messages =
                     [\<lparr>id' = 1700000000000, content = utf16 ''hi'', sender = User,
                        status = Some Sent\<rparr>,
                      \<lparr>id' = 1700000000001 + 1 / 4, content = utf16 ''a'', sender = Api,
                        status = Some Sent\<rparr>],
                   newMessageContent = utf16 ''x'', isLoading = False\<rparr>))
   \<and> utf16 ''x'' \<noteq> []"
proof -
  have rej: "sendMessage (answering (abc, EndOfStream)) in_flight = Inr in_flight"
    by (simp add: sendMessage_rejected in_flight_facts)
  have nested: "consume (interrupted (utf16 ''hi'')) in_flight =
       consume
         (Chunk [Input (utf16 ''x'')]
            \<lparr>response_content = utf16 ''a'', date_now = 1700000000001, math_random = 1 / 4\<rparr>
            (Close [] EndOfStream))
         (state_after (sendMessage (answering (abc, EndOfStream)) in_flight))"
    by (simp add: interrupted_def run_def)
  have outer: "sendMessage_async (answering (abc, EndOfStream)) interrupted typed_hi =
       ([utf16 ''hi''],
        Some (Inr \<lparr>messages =
                     [\<lparr>id' = 1700000000000, content = utf16 ''hi'', sender = User,
                        status = Some Sent\<rparr>,
                      \<lparr>id' = 1700000000001 + 1 / 4, content = utf16 ''a'', sender = Api,
                        status = Some Sent\<rparr>],
                   newMessageContent = utf16 ''x'', isLoading = False\<rparr>))"
    unfolding sendMessage_async_accepted [OF accepted_typed_hi] trim_typed_hi interrupted_facts
    by (simp add: accept_def push_def user_message_def chunk_message_def mark_last_sent_def
        finally_block_def answering_def typed_hi_def)
  have "utf16 ''x'' \<noteq> []" by (simp add: utf16_def)
  moreover have "in_flight =
     accept (answering (abc, EndOfStream)) (trim (newMessageContent typed_hi)) typed_hi"
    by (simp add: in_flight_def trim_typed_hi)
  moreover have "\<not> accepted in_flight"
    by (simp add: accepted_def in_flight_facts)
  ultimately show ?thesis
    using rej nested outer accepted_typed_hi in_flight_facts by (intro conjI)
qed

text \<open>
  C3, amended. A rejected invocation completes at once, sends nothing and leaves the busy
  flag and the buffer as they were. An accepted invocation completes exactly when its
  stream stops, and when it completes the promise is fulfilled, the busy flag is false and
  the buffer holds what was last written to it while the invocation waited, the empty
  string when nothing was written.
\<close>

theorem C3_flag_and_buffer_after_send:
  "(\<not> accepted s \<longrightarrow> sendMessage_async e service s = ([], Some (Inr s)))
   \<and> (accepted s \<longrightarrow>
        (snd (sendMessage_async e service s) = None
           \<longleftrightarrow> ending_of (service (trim (newMessageContent s))) = None)
        \<and> (\<forall>r. snd (sendMessage_async e service s) = Some r \<longrightarrow>
              (\<exists>s'. r = Inr s' \<and> \<not> isLoading s'
                 \<and> newMessageContent s' =
                     written (actions_of (service (trim (newMessageContent s)))) [])))"
proof (cases "accepted s")
  case False
  then show ?thesis by (simp add: sendMessage_async_rejected)
next
  case True
  then show ?thesis
    by (auto simp: sendMessage_async_accepted finally_block_def split: option.splits ending.splits)
qed

text \<open>
  An invocation rejected while another one waits; the accepted invocation of the
  counterexample; and one that nothing interrupts.
\<close>

theorem C3_witness:
  "\<not> accepted in_flight
   \<and> sendMessage_async (answering (abc, EndOfStream)) interrupted in_flight =
       ([], Some (Inr in_flight))
   \<and> isLoading in_flight
   \<and> accepted typed_hi
   \<and> (\<exists>s'. snd (sendMessage_async (answering (abc, EndOfStream)) interrupted typed_hi) =
              Some (Inr s')
         \<and> \<not> isLoading s' \<and> newMessageContent s' = utf16 ''x'')
   \<and> (\<exists>s'. snd (sendMessage_async (answering (abc, EndOfStream))
                   (\<lambda>request. quiet (abc, EndOfStream)) typed_hi) = Some (Inr s')
         \<and> \<not> isLoading s' \<and> newMessageContent s' = [])"
proof -
  let ?e = "answering (abc, EndOfStream)"
  have n: "\<not> accepted in_flight" by (simp add: accepted_def in_flight_facts)
  have 1: "sendMessage_async ?e interrupted in_flight = ([], Some (Inr in_flight))"
    using C3_flag_and_buffer_after_send [of in_flight ?e interrupted] n by simp
  obtain r where r: "snd (sendMessage_async ?e interrupted typed_hi) = Some r"
    using C3_flag_and_buffer_after_send [of typed_hi ?e interrupted] accepted_typed_hi
    by (cases "snd (sendMessage_async ?e interrupted typed_hi)")
      (simp_all add: trim_typed_hi interrupted_facts)
  have 2: "\<exists>s'. snd (sendMessage_async ?e interrupted typed_hi) = Some (Inr s')
         \<and> \<not> isLoading s' \<and> newMessageContent s' = utf16 ''x''"
    using C3_flag_and_buffer_after_send [of typed_hi ?e interrupted] accepted_typed_hi r
    by (auto simp: trim_typed_hi interrupted_facts)
  let ?q = "\<lambda>request::jsstring. quiet (abc, EndOfStream)"
  obtain r' where r': "snd (sendMessage_async ?e ?q typed_hi) = Some r'"
    using C3_flag_and_buffer_after_send [of typed_hi ?e ?q] accepted_typed_hi
    by (cases "snd (sendMessage_async ?e ?q typed_hi)") simp_all
  have 3: "\<exists>s'. snd (sendMessage_async ?e ?q typed_hi) = Some (Inr s')
         \<and> \<not> isLoading s' \<and> newMessageContent s' = []"
    using C3_flag_and_buffer_after_send [of typed_hi ?e ?q] accepted_typed_hi r'
    by auto
  show ?thesis
    using n 1 2 3 accepted_typed_hi by (simp add: in_flight_facts)
qed

subsection \<open>Ids\<close>

text \<open>
  C4 says that no two entries of a reachable transcript share an id. The user's entry takes
  \<^verbatim>\<open>Date.now()\<close> alone as its id (line 35). Two messages sent within one millisecond
  while the service is unreachable leave two user entries with the same id.
\<close>

theorem C4_ids_collide_within_one_millisecond:
  "map id' (messages (run [Input (utf16 ''a''), Invoke (same_ms (1 / 4)),
                           Input (utf16 ''b''), Invoke (same_ms (5 / 8))] init))
     = [1700000000000, 1700000000000 + 1 / 4, 1700000000000, 1700000000000 + 5 / 8]
   \<and> \<not> distinct (map id' (messages (run [Input (utf16 ''a''), Invoke (same_ms (1 / 4)),
                           Input (utf16 ''b''), Invoke (same_ms (5 / 8))] init)))"
  by (simp add: run_def init_def same_ms_def sendMessage_def state_after_def try_block_def
      catch_block_def accept_def finally_block_def push_def user_message_def error_message_def
      trim_def utf16_def isWhiteSpace_def)

subsection \<open>The user's entry\<close>

text \<open>
  C5. An accepted invocation pushes the user's entry, already \<^verbatim>\<open>sent\<close>, before the
  \<^verbatim>\<open>try\<close> block issues the call: the block starts in the state \<open>accept\<close> leaves,
  whose transcript is the old one followed by that entry. In every state from then on
  (after each chunk, and when the invocation is over) the transcript is the old one, the
  user's entry, and entries that are all the service's; no entry ever has the status
  \<^verbatim>\<open>sending\<close>.
\<close>

theorem C5_user_entry_first:
  assumes "accepted s"
  shows "sendMessage e s =
           (case try_block e (trim (newMessageContent s))
                   (accept e (trim (newMessageContent s)) s) of
              Inl st \<Rightarrow> Inr (finally_block (push (error_message e) st))
            | Inr st \<Rightarrow> Inr (finally_block st))
       \<and> messages (accept e (trim (newMessageContent s)) s) =
           messages s @ [user_message e (trim (newMessageContent s))]
       \<and> sender (user_message e (trim (newMessageContent s))) = User
       \<and> status (user_message e (trim (newMessageContent s))) = Some Sent
       \<and> (\<forall>k\<le>length (fst (apiClient_sendMessage e (trim (newMessageContent s)))).
            \<exists>rest.
              messages (for_await
                  (take k (fst (apiClient_sendMessage e (trim (newMessageContent s)))))
                  (accept e (trim (newMessageContent s)) s)) =
                messages s @ [user_message e (trim (newMessageContent s))] @ rest
              \<and> (\<forall>m\<in>set rest. sender m = Api \<and> status m \<noteq> Some Sending))
       \<and> (\<exists>s' rest.
            sendMessage e s = Inr s'
            \<and> messages s' = messages s @ [user_message e (trim (newMessageContent s))] @ rest
            \<and> (\<forall>m\<in>set rest. sender m = Api \<and> status m \<noteq> Some Sending))"
proof -
  let ?c = "trim (newMessageContent s)"
  obtain fs stop where r: "apiClient_sendMessage e ?c = (fs, stop)"
    by (cases "apiClient_sendMessage e ?c")
  have chunks: "\<forall>m\<in>set (map chunk_message gs). sender m = Api \<and> status m \<noteq> Some Sending" for gs
    by (simp add: chunk_message_def)
  have during: "\<forall>k\<le>length fs. \<exists>rest.
      messages (for_await (take k fs) (accept e ?c s)) = messages s @ [user_message e ?c] @ rest
      \<and> (\<forall>m\<in>set rest. sender m = Api \<and> status m \<noteq> Some Sending)"
    using chunks by (auto simp: messages_for_await)
  have after: "\<exists>s' rest. sendMessage e s = Inr s'
      \<and> messages s' = messages s @ [user_message e ?c] @ rest
      \<and> (\<forall>m\<in>set rest. sender m = Api \<and> status m \<noteq> Some Sending)"
  proof (cases stop)
    case StreamError
    have "\<forall>m\<in>set (map chunk_message fs @ [error_message e]).
            sender m = Api \<and> status m \<noteq> Some Sending"
      by (simp add: chunk_message_def error_message_def)
    moreover have "messages (finally_block (push (error_message e) (for_await fs (accept e ?c s))))
         = messages s @ [user_message e ?c] @ (map chunk_message fs @ [error_message e])"
      by (simp add: messages_for_await)
    ultimately show ?thesis
      using sendMessage_StreamError [OF assms, of e fs] r StreamError by blast
  next
    case EndOfStream
    let ?rest = "if fs = [] then []
      else map chunk_message (butlast fs) @ [(chunk_message (last fs))\<lparr>status := Some Sent\<rparr>]"
    have "\<forall>m\<in>set ?rest. sender m = Api \<and> status m \<noteq> Some Sending"
      by (auto simp: chunk_message_def)
    moreover have "messages (finally_block (mark_last_sent (for_await fs (accept e ?c s))))
         = messages s @ [user_message e ?c] @ ?rest"
      by (simp only: messages_finally_block messages_after_loop_and_mark)
    ultimately show ?thesis
      using sendMessage_EndOfStream [OF assms, of e fs] r EndOfStream by blast
  qed
  show ?thesis
    using sendMessage_accepted [OF assms, of e] during after r
    by (simp add: user_message_def)
qed

text \<open>The input \<^verbatim>\<open>"  hi  "\<close> answered with three chunks.\<close>

theorem C5_witness:
  "accepted typed_hi
   \<and> messages (accept (answering (abc, EndOfStream)) (utf16 ''hi'') typed_hi) =
       [\<lparr>id' = 1700000000000, content = utf16 ''hi'', sender = User, status = Some Sent\<rparr>]
   \<and> (\<exists>s' rest. sendMessage (answering (abc, EndOfStream)) typed_hi = Inr s'
         \<and> messages s' =
             \<lparr>id' = 1700000000000, content = utf16 ''hi'', sender = User, status = Some Sent\<rparr>
             # rest
         \<and> User \<notin> sender ` set rest)"
proof -
  let ?e = "answering (abc, EndOfStream)"
  have u: "user_message ?e (utf16 ''hi'') =
      \<lparr>id' = 1700000000000, content = utf16 ''hi'', sender = User, status = Some Sent\<rparr>"
    by (simp add: user_message_def answering_def)
  obtain s' rest where "sendMessage ?e typed_hi = Inr s'"
    and "messages s' = messages typed_hi @ [user_message ?e (utf16 ''hi'')] @ rest"
    and "\<forall>m\<in>set rest. sender m = Api \<and> status m \<noteq> Some Sending"
    using C5_user_entry_first [OF accepted_typed_hi, of ?e] unfolding trim_typed_hi by blast
  then have "\<exists>s' rest. sendMessage ?e typed_hi = Inr s'
         \<and> messages s' = user_message ?e (utf16 ''hi'') # rest
         \<and> User \<notin> sender ` set rest"
    by (auto simp: messages_typed_hi)
  then show ?thesis
    using accepted_typed_hi by (simp add: u messages_typed_hi)
qed

subsection \<open>A stream that ends without a chunk\<close>

text \<open>
  C6. An accepted invocation whose stream ends without yielding a chunk: lines 65--70
  change nothing, since the last entry is the user's; the transcript gains the user's entry
  and no other; and the busy flag is false afterwards.
\<close>

theorem C6_empty_stream:
  assumes "accepted s"
    and "apiClient_sendMessage e (trim (newMessageContent s)) = ([], EndOfStream)"
  shows "mark_last_sent (for_await [] (accept e (trim (newMessageContent s)) s)) =
           accept e (trim (newMessageContent s)) s
       \<and> (\<exists>s'. sendMessage e s = Inr s'
              \<and> messages s' = messages s @ [user_message e (trim (newMessageContent s))]
              \<and> \<not> isLoading s')"
proof -
  let ?c = "trim (newMessageContent s)"
  have "sender (user_message e ?c) = User" by (simp add: user_message_def)
  then have "mark_last_sent (accept e ?c s) = accept e ?c s"
    using mark_last_sent_User [of "accept e ?c s" "messages s" "user_message e ?c"] by simp
  then show ?thesis
    using sendMessage_EndOfStream [OF assms] by simp
qed

text \<open>The input \<^verbatim>\<open>"  hi  "\<close> answered with an empty stream.\<close>

theorem C6_witness:
  "accepted typed_hi
   \<and> apiClient_sendMessage (answering ([], EndOfStream)) (trim (newMessageContent typed_hi))
       = ([], EndOfStream)
   \<and> (\<exists>s'. sendMessage (answering ([], EndOfStream)) typed_hi = Inr s'
         \<and> messages s' =
             [\<lparr>id' = 1700000000000, content = utf16 ''hi'', sender = User, status = Some Sent\<rparr>]
         \<and> \<not> isLoading s')"
proof -
  have h2: "apiClient_sendMessage (answering ([], EndOfStream))
              (trim (newMessageContent typed_hi)) = ([], EndOfStream)"
    by (simp add: answering_def)
  show ?thesis
    using C6_empty_stream [OF accepted_typed_hi h2] accepted_typed_hi h2
    by (auto simp: trim_typed_hi messages_typed_hi user_message_def answering_def)
qed

subsection \<open>Rejected invocations\<close>

text \<open>
  C7. An invocation made while the busy flag is true completes normally and leaves the
  whole state (transcript, busy flag, input buffer) as it was.
\<close>

theorem C7_busy_is_no_op:
  assumes "isLoading s"
  shows "sendMessage e s = Inr s"
  using assms by (simp add: sendMessage_rejected)

text \<open>An invocation made while another one is suspended.\<close>

theorem C7_witness:
  "isLoading in_flight
   \<and> sendMessage (answering (abc, EndOfStream)) in_flight = Inr in_flight"
proof -
  have h: "isLoading in_flight" by (simp add: in_flight_def)
  show ?thesis using C7_busy_is_no_op [OF h] h by simp
qed

text \<open>
  C8. An invocation made while idle with an input that is empty or holds nothing but white
  space completes normally and leaves the whole state as it was: nothing is pushed and the
  busy flag is not set.
\<close>

theorem C8_blank_input_is_no_op:
  assumes "\<forall>c\<in>set (newMessageContent s). isWhiteSpace c" and "\<not> isLoading s"
  shows "sendMessage e s = Inr s"
  using assms by (simp add: sendMessage_rejected trim_eq_Nil_iff)

text \<open>A white-space input, and the empty input of the initial state.\<close>

theorem C8_witness:
  "isWhiteSpace 0x20 \<and> isWhiteSpace 0x09 \<and> isWhiteSpace 0x3000 \<and> isWhiteSpace 0x0A
   \<and> newMessageContent typed_blank = [0x20, 0x09, 0x3000, 0x0A]
   \<and> \<not> isLoading typed_blank
   \<and> sendMessage (answering (abc, EndOfStream)) typed_blank = Inr typed_blank
   \<and> sendMessage (answering (abc, EndOfStream)) init = Inr init"
proof -
  have ws: "isWhiteSpace 0x20 \<and> isWhiteSpace 0x09 \<and> isWhiteSpace 0x3000 \<and> isWhiteSpace 0x0A"
    by (simp add: isWhiteSpace_def)
  have c: "newMessageContent typed_blank = [0x20, 0x09, 0x3000, 0x0A]"
    and i: "\<not> isLoading typed_blank"
    by (simp_all add: typed_blank_def)
  have h: "\<forall>c\<in>set (newMessageContent typed_blank). isWhiteSpace c"
    using ws by (simp add: c)
  have h0: "\<forall>c\<in>set (newMessageContent init). isWhiteSpace c" and i0: "\<not> isLoading init"
    by (simp_all add: init_def)
  show ?thesis
    using C8_blank_input_is_no_op [OF h i] C8_blank_input_is_no_op [OF h0 i0] ws c i by simp
qed

text \<open>
  C9. From an idle state with an empty input, any number of invocations in a row (the list
  \<open>es\<close> gives the environment of each; its length is the number of invocations) leaves
  the transcript as long as it was.
\<close>

theorem C9_empty_input_any_number_of_times:
  assumes "newMessageContent s = []" and "\<not> isLoading s"
  shows "length (messages (run (map Invoke es) s)) = length (messages s)"
proof -
  have "trim (newMessageContent s) = []" using assms(1) by (simp add: trim_def)
  then show ?thesis by (simp add: run_rejected)
qed

text \<open>Three invocations from the initial state.\<close>

theorem C9_witness:
  "newMessageContent init = [] \<and> \<not> isLoading init
   \<and> length (messages (run (map Invoke
        [answering (abc, EndOfStream), same_ms (1 / 4), answering ([], StreamError)]) init)) = 0"
proof -
  have h: "newMessageContent init = []" and i: "\<not> isLoading init"
    by (simp_all add: init_def)
  have "length (messages init) = 0" by (simp add: init_def)
  then show ?thesis
    using C9_empty_input_any_number_of_times [OF h i,
        of "[answering (abc, EndOfStream), same_ms (1 / 4), answering ([], StreamError)]"] h i
    by simp
qed

subsection \<open>The trimmed text\<close>

text \<open>
  C10. An accepted invocation sends exactly one request, and what it passes is the trimmed
  input; the stream it consumes is the service's answer to that request, so that the
  outcome is the one computed from this answer, with waits (first and second conjunct) and
  without (fourth conjunct). When the invocation completes, the entry right after the old
  transcript is the user's and holds the trimmed input. What the service would answer to
  any other request is of no account.
\<close>

theorem C10_trimmed_text_stored_and_sent:
  assumes "accepted s"
  shows "fst (sendMessage_async e service s) = [trim (newMessageContent s)]
       \<and> snd (sendMessage_async e service s) =
           (case ending_of (service (trim (newMessageContent s))) of
              None \<Rightarrow> None
            | Some EndOfStream \<Rightarrow>
                Some (Inr ((finally_block (mark_last_sent
                  (for_await (chunks_of (service (trim (newMessageContent s))))
                     (accept e (trim (newMessageContent s)) s))))
                  \<lparr>newMessageContent :=
                     written (actions_of (service (trim (newMessageContent s)))) []\<rparr>))
            | Some StreamError \<Rightarrow>
                Some (Inr ((finally_block (push (error_message e)
                  (for_await (chunks_of (service (trim (newMessageContent s))))
                     (accept e (trim (newMessageContent s)) s))))
                  \<lparr>newMessageContent :=
                     written (actions_of (service (trim (newMessageContent s)))) []\<rparr>)))
       \<and> (\<forall>r. snd (sendMessage_async e service s) = Some r \<longrightarrow>
             (\<exists>s'. r = Inr s'
                \<and> length (messages s) < length (messages s')
                \<and> sender (messages s' ! length (messages s)) = User
                \<and> content (messages s' ! length (messages s)) = trim (newMessageContent s)))
       \<and> sendMessage e s =
           (case snd (apiClient_sendMessage e (trim (newMessageContent s))) of
              EndOfStream \<Rightarrow>
                Inr (finally_block (mark_last_sent
                  (for_await (fst (apiClient_sendMessage e (trim (newMessageContent s))))
                     (accept e (trim (newMessageContent s)) s))))
            | StreamError \<Rightarrow>
                Inr (finally_block (push (error_message e)
                  (for_await (fst (apiClient_sendMessage e (trim (newMessageContent s))))
                     (accept e (trim (newMessageContent s)) s)))))
       \<and> (\<exists>s'. sendMessage e s = Inr s'
            \<and> length (messages s) < length (messages s')
            \<and> sender (messages s' ! length (messages s)) = User
            \<and> content (messages s' ! length (messages s)) = trim (newMessageContent s))
       \<and> (\<forall>f. f (trim (newMessageContent s)) =
                 apiClient_sendMessage e (trim (newMessageContent s)) \<longrightarrow>
               sendMessage (e\<lparr>apiClient_sendMessage := f\<rparr>) s = sendMessage e s)"
proof -
  let ?c = "trim (newMessageContent s)"
  obtain fs stop where r: "apiClient_sendMessage e ?c = (fs, stop)"
    by (cases "apiClient_sendMessage e ?c")
  have formula: "sendMessage e s =
           (case snd (apiClient_sendMessage e ?c) of
              EndOfStream \<Rightarrow>
                Inr (finally_block (mark_last_sent
                  (for_await (fst (apiClient_sendMessage e ?c)) (accept e ?c s))))
            | StreamError \<Rightarrow>
                Inr (finally_block (push (error_message e)
                  (for_await (fst (apiClient_sendMessage e ?c)) (accept e ?c s)))))"
    using sendMessage_EndOfStream [OF assms, of e fs] sendMessage_StreamError [OF assms, of e fs] r
    by (cases stop) simp_all
  have e1: "length (messages s) < length (messages (mark_last_sent (for_await gs (accept e ?c s))))
            \<and> sender (messages (mark_last_sent (for_await gs (accept e ?c s))) ! length (messages s))
                = User
            \<and> content (messages (mark_last_sent (for_await gs (accept e ?c s))) ! length (messages s))
                = ?c" for gs
    by (simp add: messages_after_loop_and_mark user_message_def nth_append)
  have e2: "length (messages s) < Suc (length (messages (for_await gs (accept e ?c s))))
            \<and> sender ((messages (for_await gs (accept e ?c s)) @ [error_message e])
                ! length (messages s)) = User
            \<and> content ((messages (for_await gs (accept e ?c s)) @ [error_message e])
                ! length (messages s)) = ?c" for gs
    by (simp add: messages_for_await user_message_def nth_append)
  have entry: "\<exists>s'. sendMessage e s = Inr s'
            \<and> length (messages s) < length (messages s')
            \<and> sender (messages s' ! length (messages s)) = User
            \<and> content (messages s' ! length (messages s)) = ?c"
    unfolding formula
    by (cases "snd (apiClient_sendMessage e ?c)") (simp_all add: e1 e2)
  have async_entry: "\<forall>r. snd (sendMessage_async e service s) = Some r \<longrightarrow>
             (\<exists>s'. r = Inr s'
                \<and> length (messages s) < length (messages s')
                \<and> sender (messages s' ! length (messages s)) = User
                \<and> content (messages s' ! length (messages s)) = ?c)"
    unfolding sendMessage_async_accepted [OF assms]
    by (auto simp: e1 e2 split: option.splits ending.splits)
  have same: "sendMessage (e\<lparr>apiClient_sendMessage := f\<rparr>) s = sendMessage e s"
    if same: "f ?c = apiClient_sendMessage e ?c" for f
  proof -
    let ?e' = "e\<lparr>apiClient_sendMessage := f\<rparr>"
    have a: "accept ?e' ?c s = accept e ?c s"
      by (simp add: accept_def user_message_def)
    have t: "try_block ?e' ?c st = try_block e ?c st" for st
      using same by (simp add: try_block_def)
    have c: "catch_block ?e' = catch_block e"
      by (simp add: catch_block_def error_message_def fun_eq_iff)
    show ?thesis
      unfolding sendMessage_def Let_def a t c by (rule refl)
  qed
  show ?thesis
    using formula entry async_entry same
    by (simp add: sendMessage_async_accepted [OF assms])
qed

text \<open>
  The input \<^verbatim>\<open>"  hi  "\<close>: the request is \<^verbatim>\<open>"hi"\<close>, the transcript holds \<^verbatim>\<open>"hi"\<close>
  and the three chunks of the answer to it, and a service that fails on every request but
  \<^verbatim>\<open>"hi"\<close> behaves like the one that always answers.
\<close>

theorem C10_witness:
  "accepted typed_hi
   \<and> newMessageContent typed_hi = utf16 ''  hi  ''
   \<and> fst (sendMessage_async (answering (abc, EndOfStream)) interrupted typed_hi) = [utf16 ''hi'']
   \<and> (\<exists>s'. sendMessage (answering (abc, EndOfStream)) typed_hi = Inr s'
         \<and> map content (messages s') = [utf16 ''hi'', utf16 ''a'', utf16 ''b'', utf16 ''c''])
   \<and> sendMessage
         ((answering (abc, EndOfStream))
            \<lparr>apiClient_sendMessage :=
               (\<lambda>request. if request = utf16 ''hi'' then (abc, EndOfStream) else ([], StreamError))\<rparr>)
         typed_hi
       = sendMessage (answering (abc, EndOfStream)) typed_hi"
proof -
  let ?e = "answering (abc, EndOfStream)"
  let ?f = "\<lambda>request. if request = utf16 ''hi'' then (abc, EndOfStream) else ([], StreamError)"
  note inst = C10_trimmed_text_stored_and_sent [OF accepted_typed_hi, of ?e interrupted,
      unfolded trim_typed_hi]
  note payload = inst [THEN conjunct1]
  note formula = inst [THEN conjunct2, THEN conjunct2, THEN conjunct2, THEN conjunct1]
  note same = inst [THEN conjunct2, THEN conjunct2, THEN conjunct2, THEN conjunct2,
      THEN conjunct2, THEN spec, of ?f]
  have "?f (utf16 ''hi'') = apiClient_sendMessage ?e (utf16 ''hi'')"
    by (simp add: answering_def)
  then have 1: "sendMessage (?e\<lparr>apiClient_sendMessage := ?f\<rparr>) typed_hi = sendMessage ?e typed_hi"
    using same by (rule rev_mp)
  have api: "apiClient_sendMessage ?e (utf16 ''hi'') = (abc, EndOfStream)"
    by (simp add: answering_def)
  have "abc \<noteq> []" by (simp add: abc_def)
  then have "map content (messages (finally_block (mark_last_sent
      (for_await abc (accept ?e (utf16 ''hi'') typed_hi))))) =
      [utf16 ''hi'', utf16 ''a'', utf16 ''b'', utf16 ''c'']"
    by (simp add: messages_after_loop_and_mark messages_typed_hi user_message_def)
      (simp add: abc_def chunk_message_def)
  then have 2: "\<exists>s'. sendMessage ?e typed_hi = Inr s'
         \<and> map content (messages s') = [utf16 ''hi'', utf16 ''a'', utf16 ''b'', utf16 ''c'']"
    using formula unfolding api by simp
  have 3: "newMessageContent typed_hi = utf16 ''  hi  ''"
    by (simp add: typed_hi_def)
  show ?thesis
    using accepted_typed_hi 3 payload 2 1 by (intro conjI)
qed

end
